theory Spec2Isabelle
  imports Main
begin

section \<open>Ground station store layer: TelemetryStore and VideoStore\<close>

text \<open>
  A shallow embedding of the two reactive stores of \<^verbatim>\<open>src/bindings/middleware.ts\<close>
  and of the rolling window of \<^verbatim>\<open>src/App.tsx\<close>.

  Conventions of the embedding:
  \<^item> a JavaScript \<^verbatim>\<open>number\<close> that the stores only carry around or use as a length
    (\<^verbatim>\<open>timestamp\<close>, \<^verbatim>\<open>width\<close>, \<^verbatim>\<open>maxPoints\<close>) is an \<open>int\<close>;
  \<^item> a subscriber callback is a function object compared by reference
    (\<^verbatim>\<open>cb !== callback\<close>), so it is represented by its identity, a \<open>nat\<close>; calling it
    is recorded in the list of deliveries of the surrounding world. Callbacks are taken
    to return normally and not to call back into the store;
  \<^item> a listener registered on a push channel is represented by its handle; the
    \<^verbatim>\<open>UnlistenFn\<close> returned by \<^verbatim>\<open>listen\<close> removes exactly that handle;
  \<^item> an \<^verbatim>\<open>await\<close> of a backend call takes the outcome of the call as an argument:
    \<open>Inl e\<close> when the promise rejects with \<open>e\<close>, \<open>Inr v\<close> when it resolves to \<open>v\<close>;
  \<^item> every call of a store method runs to completion before the next one begins.
\<close>

subsection \<open>Data\<close>

type_synonym callback = nat
type_synonym handle = nat

text \<open>
  \<open>BackendError\<close>: the value a backend promise (\<^verbatim>\<open>invoke\<close>, \<^verbatim>\<open>listen\<close>) rejects with.
  \<open>ConfigError\<close>: the error the specification names for an invalid construction
  parameter; no statement of the source raises it.
\<close>

datatype error = BackendError string | ConfigError

datatype any = JNull | JBool bool | JNumber int | JString string

record TelemetryData =
  timestamp :: int
  data_fields :: "(string \<times> any) list"

record VideoFrameForFrontend =
  frame_timestamp :: int
  data_base64 :: string
  width :: int
  height :: int
  format :: string

text \<open>The private fields of \<^verbatim>\<open>class TelemetryStore\<close>.\<close>

record TelemetryStore =
  key :: string
  data :: "TelemetryData list"
  currentData :: "TelemetryData option"
  subscribers :: "callback list"
  maxPoints :: int
  unlisten :: "handle option"

text \<open>
  A TelemetryStore in its surroundings: the listeners this instance has attached to the
  \<^verbatim>\<open>telemetry-update\<close> channel and that are still live, the next free handle, and
  the observable effects so far (subscriber calls with their argument, calls of
  unlisten functions, backend operations invoked).
\<close>

record tworld =
  store :: TelemetryStore
  live :: "handle list"
  next_handle :: handle
  delivered :: "(callback \<times> TelemetryData list) list"
  unlistened :: "handle list"
  invoked :: "string list"

datatype disposer = Disposer callback

subsection \<open>Array.prototype.slice with one argument\<close>

text \<open>
  \<^verbatim>\<open>xs.slice(start)\<close>: a negative \<open>start\<close> counts from the end and is clamped at 0, a
  non-negative one is clamped at the length. \<^verbatim>\<open>slice(-0)\<close> is \<^verbatim>\<open>slice(0)\<close>.
\<close>

definition slice :: "int \<Rightarrow> 'a list \<Rightarrow> 'a list" where
  "slice start xs =
     (let len = int (length xs);
          k = (if start < 0 then max (len + start) 0 else min start len)
      in drop (nat k) xs)"

subsection \<open>TelemetryStore\<close>

text \<open>
  \<^verbatim>\<open>constructor(key, maxPoints = 100)\<close>: two assignments on top of the field
  initialisers; \<open>TelemetryStore_init\<close> is the object they leave. The body has no
  \<^verbatim>\<open>throw\<close> and no check of its arguments, so \<^verbatim>\<open>new TelemetryStore(key, maxPoints)\<close>
  always completes normally: \<open>TelemetryStore_new\<close> is always \<open>Inr\<close>.
\<close>

definition TelemetryStore_init :: "string \<Rightarrow> int option \<Rightarrow> TelemetryStore" where
  "TelemetryStore_init k mp =
     \<lparr>key = k, data = [], currentData = None, subscribers = [],
      maxPoints = (case mp of None \<Rightarrow> 100 | Some n \<Rightarrow> n), unlisten = None\<rparr>"

definition TelemetryStore_new :: "string \<Rightarrow> int option \<Rightarrow> error + TelemetryStore" where
  "TelemetryStore_new k mp = Inr (TelemetryStore_init k mp)"

definition fresh :: "TelemetryStore \<Rightarrow> tworld" where
  "fresh s = \<lparr>store = s, live = [], next_handle = 0, delivered = [],
              unlistened = [], invoked = []\<rparr>"

text \<open>\<^verbatim>\<open>notify\<close>: every subscriber, in registration order, is called with \<^verbatim>\<open>this.data\<close>.\<close>

definition notify :: "tworld \<Rightarrow> tworld" where
  "notify w =
     w\<lparr>delivered := delivered w @ map (\<lambda>cb. (cb, data (store w))) (subscribers (store w))\<rparr>"

text \<open>The listener body that \<^verbatim>\<open>start\<close> passes to \<^verbatim>\<open>onTelemetryUpdate\<close>.\<close>

definition on_update :: "TelemetryData \<Rightarrow> tworld \<Rightarrow> tworld" where
  "on_update d w =
     (let s = store w;
          s1 = s\<lparr>currentData := Some d\<rparr>;
          s2 = s1\<lparr>data := slice (- maxPoints s1) (data s1 @ [d])\<rparr>
      in notify (w\<lparr>store := s2\<rparr>))"

text \<open>
  \<^verbatim>\<open>start\<close>. First argument: outcome of \<^verbatim>\<open>getTelemetry(key, maxPoints)\<close>; second:
  outcome of \<^verbatim>\<open>onTelemetryUpdate\<close> (the registration of the listener). A rejection
  leaves the function at the \<^verbatim>\<open>await\<close>, with what was done before it kept.
\<close>

fun start :: "error + TelemetryData list \<Rightarrow> error + unit \<Rightarrow> tworld \<Rightarrow> (error + unit) \<times> tworld" where
  "start (Inl e) _ w = (Inl e, w\<lparr>invoked := invoked w @ [''get_telemetry'']\<rparr>)"
| "start (Inr existing) reg w =
     (let w0 = w\<lparr>invoked := invoked w @ [''get_telemetry'']\<rparr>;
          s = store w0;
          s1 = s\<lparr>data := existing\<rparr>;
          s2 = (if length existing > 0 then s1\<lparr>currentData := Some (last existing)\<rparr> else s1);
          w1 = notify (w0\<lparr>store := s2\<rparr>);
          w2 = w1\<lparr>invoked := invoked w1 @ [''listen telemetry-update'']\<rparr>
      in case reg of
           Inl e \<Rightarrow> (Inl e, w2)
         | Inr _ \<Rightarrow>
             (Inr (),
              w2\<lparr>store := (store w2)\<lparr>unlisten := Some (next_handle w2)\<rparr>,
                 live := live w2 @ [next_handle w2],
                 next_handle := Suc (next_handle w2)\<rparr>))"

text \<open>\<^verbatim>\<open>stop\<close>: a non-null \<^verbatim>\<open>unlisten\<close> is called and then cleared.\<close>

definition stop :: "tworld \<Rightarrow> tworld" where
  "stop w =
     (case unlisten (store w) of
        None \<Rightarrow> w
      | Some h \<Rightarrow>
          w\<lparr>live := removeAll h (live w),
            unlistened := unlistened w @ [h],
            store := (store w)\<lparr>unlisten := None\<rparr>\<rparr>)"

text \<open>
  \<^verbatim>\<open>subscribe\<close>: push, one call of the callback with \<^verbatim>\<open>this.data\<close>, and the closure
  that filters the callback out is returned.
\<close>

definition subscribe :: "callback \<Rightarrow> tworld \<Rightarrow> disposer \<times> tworld" where
  "subscribe cb w =
     (let s = (store w)\<lparr>subscribers := subscribers (store w) @ [cb]\<rparr>
      in (Disposer cb, w\<lparr>store := s, delivered := delivered w @ [(cb, data s)]\<rparr>))"

fun dispose :: "disposer \<Rightarrow> tworld \<Rightarrow> tworld" where
  "dispose (Disposer cb) w =
     w\<lparr>store := (store w)\<lparr>subscribers := filter (\<lambda>c. c \<noteq> cb) (subscribers (store w))\<rparr>\<rparr>"

definition getCurrentData :: "tworld \<Rightarrow> TelemetryData option" where
  "getCurrentData w = currentData (store w)"

definition getAllData :: "tworld \<Rightarrow> TelemetryData list" where
  "getAllData w = data (store w)"

text \<open>\<^verbatim>\<open>refresh\<close>; the argument is the outcome of \<^verbatim>\<open>getTelemetry(key, maxPoints)\<close>.\<close>

fun refresh :: "error + TelemetryData list \<Rightarrow> tworld \<Rightarrow> (error + unit) \<times> tworld" where
  "refresh (Inl e) w = (Inl e, w\<lparr>invoked := invoked w @ [''get_telemetry'']\<rparr>)"
| "refresh (Inr snapshot) w =
     (let w0 = w\<lparr>invoked := invoked w @ [''get_telemetry'']\<rparr>;
          s = store w0;
          s1 = s\<lparr>data := snapshot\<rparr>;
          s2 = (if length (data s1) > 0 then s1\<lparr>currentData := Some (last (data s1))\<rparr> else s1)
      in (Inr (), notify (w0\<lparr>store := s2\<rparr>)))"

text \<open>
  A \<^verbatim>\<open>telemetry-update\<close> event with payload \<open>d\<close>: the channel calls every live
  listener, and each listener of this instance runs the body above on \<open>d\<close>.
\<close>

definition emit :: "TelemetryData \<Rightarrow> tworld \<Rightarrow> tworld" where
  "emit d w = fold (\<lambda>_. on_update d) (live w) w"

definition emit_all :: "TelemetryData list \<Rightarrow> tworld \<Rightarrow> tworld" where
  "emit_all ds w = fold emit ds w"

text \<open>The calls a client and the channel can make on one TelemetryStore, and their effect.\<close>

datatype tcall =
    Start "error + TelemetryData list" "error + unit"
  | Stop
  | Refresh "error + TelemetryData list"
  | Subscribe callback
  | Unsubscribe callback
  | Push TelemetryData

fun step :: "tcall \<Rightarrow> tworld \<Rightarrow> tworld" where
  "step (Start snapshot reg) w = snd (start snapshot reg w)"
| "step Stop w = stop w"
| "step (Refresh snapshot) w = snd (refresh snapshot w)"
| "step (Subscribe cb) w = snd (subscribe cb w)"
| "step (Unsubscribe cb) w = dispose (Disposer cb) w"
| "step (Push d) w = emit d w"

definition run :: "tcall list \<Rightarrow> tworld \<Rightarrow> tworld" where
  "run cs w = fold step cs w"

text \<open>
  A sequence of calls in which no \<^verbatim>\<open>start()\<close> attaches a listener while the listener
  of an earlier \<^verbatim>\<open>start()\<close> is still held: between two starts that both get as far as
  attaching, there is a \<^verbatim>\<open>stop()\<close>. The flag says whether a listener is held.
\<close>

fun attaches :: "error + 'a \<Rightarrow> error + unit \<Rightarrow> bool" where
  "attaches (Inr _) (Inr _) = True"
| "attaches _ _ = False"

fun stop_between_starts :: "bool \<Rightarrow> tcall list \<Rightarrow> bool" where
  "stop_between_starts held [] = True"
| "stop_between_starts held (Start snapshot reg # cs) =
     (if attaches snapshot reg then \<not> held \<and> stop_between_starts True cs
      else stop_between_starts held cs)"
| "stop_between_starts held (Stop # cs) = stop_between_starts False cs"
| "stop_between_starts held (_ # cs) = stop_between_starts held cs"

subsection \<open>VideoStore\<close>

record VideoStore =
  vkey :: string
  currentFrame :: "VideoFrameForFrontend option"
  vsubscribers :: "callback list"
  vunlisten :: "handle option"

record vworld =
  vstore :: VideoStore
  vlive :: "handle list"
  vnext_handle :: handle
  vdelivered :: "(callback \<times> VideoFrameForFrontend option) list"
  vunlistened :: "handle list"
  vinvoked :: "string list"

definition VideoStore_new :: "string \<Rightarrow> VideoStore" where
  "VideoStore_new k = \<lparr>vkey = k, currentFrame = None, vsubscribers = [], vunlisten = None\<rparr>"

definition vfresh :: "VideoStore \<Rightarrow> vworld" where
  "vfresh s = \<lparr>vstore = s, vlive = [], vnext_handle = 0, vdelivered = [],
               vunlistened = [], vinvoked = []\<rparr>"

definition vnotify :: "vworld \<Rightarrow> vworld" where
  "vnotify w =
     w\<lparr>vdelivered :=
         vdelivered w @ map (\<lambda>cb. (cb, currentFrame (vstore w))) (vsubscribers (vstore w))\<rparr>"

text \<open>
  The listener body that \<^verbatim>\<open>start\<close> passes to \<^verbatim>\<open>onVideoFrameUpdate\<close>. It gets the
  payload of the event, a \<^verbatim>\<open>VideoFrameForFrontend\<close>, and nothing else; it does not read
  \<^verbatim>\<open>this.key\<close>.
\<close>

definition on_frame :: "VideoFrameForFrontend \<Rightarrow> vworld \<Rightarrow> vworld" where
  "on_frame frame w = vnotify (w\<lparr>vstore := (vstore w)\<lparr>currentFrame := Some frame\<rparr>\<rparr>)"

text \<open>
  \<^verbatim>\<open>start\<close>. First argument: outcome of \<^verbatim>\<open>getLatestVideoFrame(key)\<close>; second: outcome
  of \<^verbatim>\<open>onVideoFrameUpdate\<close>.
\<close>

fun vstart :: "error + VideoFrameForFrontend option \<Rightarrow> error + unit \<Rightarrow> vworld \<Rightarrow> (error + unit) \<times> vworld" where
  "vstart (Inl e) _ w = (Inl e, w\<lparr>vinvoked := vinvoked w @ [''get_latest_video_frame'']\<rparr>)"
| "vstart (Inr latest) reg w =
     (let w0 = w\<lparr>vinvoked := vinvoked w @ [''get_latest_video_frame'']\<rparr>;
          w1 = vnotify (w0\<lparr>vstore := (vstore w0)\<lparr>currentFrame := latest\<rparr>\<rparr>);
          w2 = w1\<lparr>vinvoked := vinvoked w1 @ [''listen video-frame-update'']\<rparr>
      in case reg of
           Inl e \<Rightarrow> (Inl e, w2)
         | Inr _ \<Rightarrow>
             (Inr (),
              w2\<lparr>vstore := (vstore w2)\<lparr>vunlisten := Some (vnext_handle w2)\<rparr>,
                 vlive := vlive w2 @ [vnext_handle w2],
                 vnext_handle := Suc (vnext_handle w2)\<rparr>))"

definition vstop :: "vworld \<Rightarrow> vworld" where
  "vstop w =
     (case vunlisten (vstore w) of
        None \<Rightarrow> w
      | Some h \<Rightarrow>
          w\<lparr>vlive := removeAll h (vlive w),
            vunlistened := vunlistened w @ [h],
            vstore := (vstore w)\<lparr>vunlisten := None\<rparr>\<rparr>)"

definition vsubscribe :: "callback \<Rightarrow> vworld \<Rightarrow> disposer \<times> vworld" where
  "vsubscribe cb w =
     (let s = (vstore w)\<lparr>vsubscribers := vsubscribers (vstore w) @ [cb]\<rparr>
      in (Disposer cb, w\<lparr>vstore := s, vdelivered := vdelivered w @ [(cb, currentFrame s)]\<rparr>))"

fun vdispose :: "disposer \<Rightarrow> vworld \<Rightarrow> vworld" where
  "vdispose (Disposer cb) w =
     w\<lparr>vstore := (vstore w)\<lparr>vsubscribers := filter (\<lambda>c. c \<noteq> cb) (vsubscribers (vstore w))\<rparr>\<rparr>"

definition getCurrentFrame :: "vworld \<Rightarrow> VideoFrameForFrontend option" where
  "getCurrentFrame w = currentFrame (vstore w)"

fun vrefresh :: "error + VideoFrameForFrontend option \<Rightarrow> vworld \<Rightarrow> (error + unit) \<times> vworld" where
  "vrefresh (Inl e) w = (Inl e, w\<lparr>vinvoked := vinvoked w @ [''get_latest_video_frame'']\<rparr>)"
| "vrefresh (Inr latest) w =
     (let w0 = w\<lparr>vinvoked := vinvoked w @ [''get_latest_video_frame'']\<rparr>
      in (Inr (), vnotify (w0\<lparr>vstore := (vstore w0)\<lparr>currentFrame := latest\<rparr>\<rparr>)))"

text \<open>
  A \<^verbatim>\<open>video-frame-update\<close> event. The backend emits it for the stream \<open>k\<close> a frame was
  added to (\<^verbatim>\<open>addVideoFrame(key, frame)\<close>), on the one channel all streams share; the
  payload is the frame alone. The channel calls every live listener with the payload, so
  \<open>k\<close> reaches no listener.
\<close>

definition emit_frame :: "string \<Rightarrow> VideoFrameForFrontend \<Rightarrow> vworld \<Rightarrow> vworld" where
  "emit_frame k frame w = fold (\<lambda>_. on_frame frame) (vlive w) w"

datatype vcall =
    VStart "error + VideoFrameForFrontend option" "error + unit"
  | VStop
  | VRefresh "error + VideoFrameForFrontend option"
  | VSubscribe callback
  | VUnsubscribe callback
  | VPush string VideoFrameForFrontend

fun vstep :: "vcall \<Rightarrow> vworld \<Rightarrow> vworld" where
  "vstep (VStart latest reg) w = snd (vstart latest reg w)"
| "vstep VStop w = vstop w"
| "vstep (VRefresh latest) w = snd (vrefresh latest w)"
| "vstep (VSubscribe cb) w = snd (vsubscribe cb w)"
| "vstep (VUnsubscribe cb) w = vdispose (Disposer cb) w"
| "vstep (VPush k frame) w = emit_frame k frame w"

definition vrun :: "vcall list \<Rightarrow> vworld \<Rightarrow> vworld" where
  "vrun cs w = fold vstep cs w"

fun vstop_between_starts :: "bool \<Rightarrow> vcall list \<Rightarrow> bool" where
  "vstop_between_starts held [] = True"
| "vstop_between_starts held (VStart latest reg # cs) =
     (if attaches latest reg then \<not> held \<and> vstop_between_starts True cs
      else vstop_between_starts held cs)"
| "vstop_between_starts held (VStop # cs) = vstop_between_starts False cs"
| "vstop_between_starts held (_ # cs) = vstop_between_starts held cs"

subsection \<open>The rolling window of App.tsx\<close>

text \<open>
  The updater passed to \<^verbatim>\<open>setData\<close> in the \<^verbatim>\<open>sim_data\<close> listener:
  \<^verbatim>\<open>const next = [...curr, {x, y}]; if (next.length > MAX_DATA_SIZE) next.shift();\<close>
\<close>

definition MAX_DATA_SIZE :: nat where
  "MAX_DATA_SIZE = 1000"

definition setData_updater :: "'a \<Rightarrow> 'a list \<Rightarrow> 'a list" where
  "setData_updater p currData =
     (let next = currData @ [p] in if length next > MAX_DATA_SIZE then tl next else next)"

subsection \<open>Invariants of the lifecycle\<close>

definition handles_ok :: "tworld \<Rightarrow> bool" where
  "handles_ok w \<longleftrightarrow>
     distinct (unlistened w) \<and> list_all (\<lambda>h. h < next_handle w) (unlistened w) \<and>
     (case unlisten (store w) of None \<Rightarrow> True
      | Some h \<Rightarrow> h < next_handle w \<and> h \<notin> set (unlistened w))"

definition vhandles_ok :: "vworld \<Rightarrow> bool" where
  "vhandles_ok w \<longleftrightarrow>
     distinct (vunlistened w) \<and> list_all (\<lambda>h. h < vnext_handle w) (vunlistened w) \<and>
     (case vunlisten (vstore w) of None \<Rightarrow> True
      | Some h \<Rightarrow> h < vnext_handle w \<and> h \<notin> set (vunlistened w))"

definition held_is_live :: "tworld \<Rightarrow> bool" where
  "held_is_live w \<longleftrightarrow> live w = (case unlisten (store w) of None \<Rightarrow> [] | Some h \<Rightarrow> [h])"

definition vheld_is_live :: "vworld \<Rightarrow> bool" where
  "vheld_is_live w \<longleftrightarrow> vlive w = (case vunlisten (vstore w) of None \<Rightarrow> [] | Some h \<Rightarrow> [h])"

definition current_is_last :: "tworld \<Rightarrow> bool" where
  "current_is_last w \<longleftrightarrow>
     (data (store w) = [] \<or> currentData (store w) = Some (last (data (store w))))"

subsection \<open>Sample values\<close>

definition rec_y :: "int \<Rightarrow> TelemetryData" where
  "rec_y v = \<lparr>timestamp = v, data_fields = [(''y'', JNumber v)]\<rparr>"

definition cam_frame :: "int \<Rightarrow> string \<Rightarrow> VideoFrameForFrontend" where
  "cam_frame t payload =
     \<lparr>frame_timestamp = t, data_base64 = payload, width = 640, height = 480, format = ''jpeg''\<rparr>"

section \<open>Properties\<close>

subsection \<open>The window after appends\<close>

lemma slice_neg: "1 \<le> n \<Longrightarrow> slice (- n) xs = drop (length xs - nat n) xs"
  by (auto simp: slice_def Let_def max_def intro!: arg_cong2[where f=drop])

lemma drop_drop_snoc:
  "0 < n \<Longrightarrow> drop (length (drop (length xs - n) xs @ [d]) - n) (drop (length xs - n) xs @ [d])
     = drop (length (xs @ [d]) - n) (xs @ [d])"
proof (cases "length xs < n")
  case True
  then show ?thesis by auto
next
  case False
  assume "0 < n"
  with False have "Suc (length xs - n) = Suc (length xs) - n" by arith
  with False show ?thesis by simp
qed

lemma notify_store [simp]: "store (notify w) = store w"
  and notify_live [simp]: "live (notify w) = live w"
  and notify_next [simp]: "next_handle (notify w) = next_handle w"
  and notify_unlistened [simp]: "unlistened (notify w) = unlistened w"
  and notify_invoked [simp]: "invoked (notify w) = invoked w"
  by (simp_all add: notify_def)

lemma on_update_live [simp]: "live (on_update d w) = live w"
  by (simp add: on_update_def Let_def)

lemma on_update_data:
  "data (store (on_update d w)) = slice (- maxPoints (store w)) (data (store w) @ [d])"
  by (simp add: on_update_def Let_def)

lemma on_update_maxPoints [simp]: "maxPoints (store (on_update d w)) = maxPoints (store w)"
  by (simp add: on_update_def Let_def)

lemma emit_one: "live w = [h] \<Longrightarrow> emit d w = on_update d w"
  by (simp add: emit_def)

lemma emit_all_snoc: "emit_all (ds @ [d]) w = emit d (emit_all ds w)"
  by (simp add: emit_all_def)

lemma emit_keeps:
  "live (emit d u) = live u \<and> maxPoints (store (emit d u)) = maxPoints (store u)"
proof -
  have "live (fold (\<lambda>_. on_update d) hs u) = live u
      \<and> maxPoints (store (fold (\<lambda>_. on_update d) hs u)) = maxPoints (store u)" for hs
    by (induction hs arbitrary: u) simp_all
  then show ?thesis by (simp add: emit_def)
qed

lemma emit_all_keeps:
  "live (emit_all ds w) = live w \<and> maxPoints (store (emit_all ds w)) = maxPoints (store w)"
proof (induction ds rule: rev_induct)
  case Nil
  show ?case by (simp add: emit_all_def)
next
  case (snoc d ds)
  with emit_keeps[of d "emit_all ds w"] show ?case by (simp add: emit_all_snoc)
qed

text \<open>
  With one live listener and a capacity of at least 1, the window after a non-empty run
  of events is the tail of the old window followed by the payloads.
\<close>

lemma emit_all_window:
  "live w = [h] \<Longrightarrow> 1 \<le> maxPoints (store w) \<Longrightarrow> ds \<noteq> [] \<Longrightarrow>
   data (store (emit_all ds w)) =
     drop (length (data (store w) @ ds) - nat (maxPoints (store w))) (data (store w) @ ds)"
proof (induction ds arbitrary: w rule: rev_induct)
  case Nil
  then show ?case by simp
next
  case (snoc d ds)
  let ?n = "nat (maxPoints (store w))"
  have pos: "0 < ?n" using snoc.prems by simp
  have inv: "live (emit_all ds w) = [h]" "maxPoints (store (emit_all ds w)) = maxPoints (store w)"
    using emit_all_keeps[of ds w] snoc.prems by simp_all
  show ?case
  proof (cases "ds = []")
    case True
    then show ?thesis using snoc.prems
      by (simp add: emit_all_def emit_one on_update_data slice_neg)
  next
    case False
    have IH: "data (store (emit_all ds w)) =
              drop (length (data (store w) @ ds) - ?n) (data (store w) @ ds)"
      using snoc.IH[OF snoc.prems(1,2) False] .
    have "data (store (emit_all (ds @ [d]) w)) =
          slice (- maxPoints (store w)) (data (store (emit_all ds w)) @ [d])"
      using inv by (simp add: emit_all_snoc emit_one on_update_data)
    also have "\<dots> = drop (length (data (store (emit_all ds w)) @ [d]) - ?n)
                        (data (store (emit_all ds w)) @ [d])"
      using snoc.prems by (simp add: slice_neg)
    also have "\<dots> = drop (length ((data (store w) @ ds) @ [d]) - ?n) ((data (store w) @ ds) @ [d])"
      unfolding IH using drop_drop_snoc[OF pos, of "data (store w) @ ds" d] .
    finally show ?thesis by simp
  qed
qed

lemma start_ok_live:
  "live (snd (start (Inr existing) (Inr u) (fresh s))) = [0]"
  by (simp add: fresh_def Let_def)

lemma start_ok_maxPoints:
  "maxPoints (store (snd (start (Inr existing) (Inr u) w))) = maxPoints (store w)"
  by (simp add: Let_def)

lemma start_ok_data:
  "data (store (snd (start (Inr existing) reg w))) = existing"
  by (simp add: Let_def split: sum.splits)

text \<open>
  C3. A TelemetryStore constructed with capacity \<open>N \<ge> 1\<close> and started (whatever the
  snapshot) that then receives \<open>N + k\<close> records holds exactly the last \<open>N\<close> of them, in
  arrival order: the first \<open>k\<close> are gone, and the length is \<open>min N (N + k)\<close>.
\<close>

theorem window_is_last_N:
  assumes "1 \<le> N" and "length ds = nat N + k"
  shows "getAllData (emit_all ds (snd (start (Inr existing) (Inr ())
            (fresh (TelemetryStore_init k0 (Some N)))))) = drop k ds
       \<and> length (getAllData (emit_all ds (snd (start (Inr existing) (Inr ())
            (fresh (TelemetryStore_init k0 (Some N))))))) = min (nat N) (nat N + k)"
proof -
  let ?w = "snd (start (Inr existing) (Inr ()) (fresh (TelemetryStore_init k0 (Some N))))"
  have mp: "maxPoints (store ?w) = N"
    unfolding start_ok_maxPoints by (simp add: fresh_def TelemetryStore_init_def)
  have ne: "ds \<noteq> []" using assms by auto
  have "data (store (emit_all ds ?w)) =
        drop (length (data (store ?w) @ ds) - nat N) (data (store ?w) @ ds)"
    using emit_all_window[OF start_ok_live _ ne, of existing "()" "TelemetryStore_init k0 (Some N)"]
      assms(1) mp by simp
  also have "\<dots> = drop k ds"
    using assms(2) by (simp add: start_ok_data)
  finally have w: "getAllData (emit_all ds ?w) = drop k ds"
    by (simp add: getAllData_def)
  show ?thesis unfolding w using assms(2) by simp
qed

text \<open>The scenario of the specification: capacity 3, y-values 1 to 5.\<close>

theorem window_is_last_N_witness:
  "getAllData (emit_all [rec_y 1, rec_y 2, rec_y 3, rec_y 4, rec_y 5]
     (snd (start (Inr []) (Inr ()) (fresh (TelemetryStore_init ''altimeter'' (Some 3))))))
   = [rec_y 3, rec_y 4, rec_y 5]
   \<and> getCurrentData (emit_all [rec_y 1, rec_y 2, rec_y 3, rec_y 4, rec_y 5]
     (snd (start (Inr []) (Inr ()) (fresh (TelemetryStore_init ''altimeter'' (Some 3))))))
   = Some (rec_y 5)"
proof -
  have h1: "(1::int) \<le> 3" by simp
  have h2: "length [rec_y 1, rec_y 2, rec_y 3, rec_y 4, rec_y 5] = nat 3 + 2" by simp
  have "getAllData (emit_all [rec_y 1, rec_y 2, rec_y 3, rec_y 4, rec_y 5]
     (snd (start (Inr []) (Inr ()) (fresh (TelemetryStore_init ''altimeter'' (Some 3))))))
     = drop 2 [rec_y 1, rec_y 2, rec_y 3, rec_y 4, rec_y 5]"
    using window_is_last_N[OF h1 h2, of "[]" "''altimeter''"] by blast
  moreover have "getCurrentData (emit_all [rec_y 1, rec_y 2, rec_y 3, rec_y 4, rec_y 5]
     (snd (start (Inr []) (Inr ()) (fresh (TelemetryStore_init ''altimeter'' (Some 3))))))
   = Some (rec_y 5)"
    by (simp add: getCurrentData_def emit_all_def emit_def on_update_def notify_def fresh_def Let_def)
  ultimately show ?thesis by simp
qed

text \<open>
  The window of App.tsx, which starts empty, holds the last \<open>MAX_DATA_SIZE\<close> points
  received, in arrival order.
\<close>

lemma setData_window:
  "fold setData_updater ps [] = drop (length ps - MAX_DATA_SIZE) ps"
proof (induction ps rule: rev_induct)
  case Nil
  show ?case by simp
next
  case (snoc p ps)
  have step: "fold setData_updater (ps @ [p]) [] =
              setData_updater p (drop (length ps - MAX_DATA_SIZE) ps)"
    using snoc by simp
  show ?case
  proof (cases "length ps < MAX_DATA_SIZE")
    case True
    then show ?thesis unfolding step by (simp add: setData_updater_def)
  next
    case False
    then have ge: "MAX_DATA_SIZE \<le> length ps" by simp
    have pos: "0 < MAX_DATA_SIZE" by (simp add: MAX_DATA_SIZE_def)
    have len: "length (drop (length ps - MAX_DATA_SIZE) ps) = MAX_DATA_SIZE"
      using ge by simp
    have "fold setData_updater (ps @ [p]) [] = tl (drop (length ps - MAX_DATA_SIZE) ps @ [p])"
      unfolding step using len by (simp add: setData_updater_def)
    also have "\<dots> = drop (Suc (length ps - MAX_DATA_SIZE)) ps @ [p]"
    proof -
      have "drop (length ps - MAX_DATA_SIZE) ps \<noteq> []"
        using len pos by auto
      then have "tl (drop (length ps - MAX_DATA_SIZE) ps @ [p]) =
                 tl (drop (length ps - MAX_DATA_SIZE) ps) @ [p]"
        by (rule tl_append2)
      then show ?thesis by (simp only: tl_drop drop_Suc)
    qed
    also have "\<dots> = drop (length (ps @ [p]) - MAX_DATA_SIZE) (ps @ [p])"
      using ge pos by (simp add: Suc_diff_le)
    finally show ?thesis .
  qed
qed

subsection \<open>Construction\<close>

text \<open>
  C4, as the code has it. Construction performs no validation and completes normally for
  every maximum window size, 0 included: it never ends in an error. The object it yields
  has the key and the size given (100 when none is given), an empty buffer, no current
  record, no subscribers and no listener.
\<close>

theorem construction_never_fails:
  "TelemetryStore_new k0 mp = Inr (TelemetryStore_init k0 mp)
   \<and> TelemetryStore_new k0 mp \<noteq> Inl e
   \<and> key (TelemetryStore_init k0 mp) = k0
   \<and> maxPoints (TelemetryStore_init k0 (Some N)) = N
   \<and> maxPoints (TelemetryStore_init k0 None) = 100
   \<and> data (TelemetryStore_init k0 mp) = []
   \<and> currentData (TelemetryStore_init k0 mp) = None
   \<and> subscribers (TelemetryStore_init k0 mp) = []
   \<and> unlisten (TelemetryStore_init k0 mp) = None"
  by (simp add: TelemetryStore_new_def TelemetryStore_init_def)

text \<open>C4 as stated fails: constructing with size 0 yields a store, not a ConfigError.\<close>

theorem zero_capacity_constructs:
  "TelemetryStore_new ''altimeter'' (Some 0) \<noteq> Inl ConfigError
   \<and> TelemetryStore_new ''altimeter'' (Some 0)
       = Inr \<lparr>key = ''altimeter'', data = [], currentData = None, subscribers = [],
              maxPoints = 0, unlisten = None\<rparr>"
  by (simp add: TelemetryStore_new_def TelemetryStore_init_def)

subsection \<open>Start, restart and subscription\<close>

text \<open>
  C6. A \<^verbatim>\<open>start()\<close> after \<^verbatim>\<open>stop()\<close> whose snapshot fetch succeeds makes the
  snapshot the whole buffer, whatever was buffered before, and calls every subscriber
  registered before the restart once, in registration order, with that snapshot; the
  subscribers stay registered.
\<close>

theorem restart_reseeds_from_snapshot:
  "getAllData (snd (start (Inr existing) reg (stop w))) = existing
   \<and> delivered (snd (start (Inr existing) reg (stop w)))
        = delivered w @ map (\<lambda>cb. (cb, existing)) (subscribers (store w))
   \<and> subscribers (store (snd (start (Inr existing) reg (stop w)))) = subscribers (store w)"
  by (cases reg) (simp_all add: Let_def notify_def stop_def getAllData_def split: option.splits)

text \<open>
  C7. When the snapshot fetch of \<^verbatim>\<open>start()\<close> rejects with \<open>e\<close>, \<^verbatim>\<open>start()\<close> rejects
  with the same \<open>e\<close> after that one backend call: the store (buffer, current record,
  subscribers, unlisten field), the live listeners, and the subscriber and unlisten calls
  are as before. A later \<^verbatim>\<open>start()\<close> then has the outcome and the effect it would have
  had without the failed attempt (the list of backend calls made apart).
\<close>

theorem failed_fetch_leaves_store:
  "fst (start (Inl e) reg w) = Inl e
   \<and> store (snd (start (Inl e) reg w)) = store w
   \<and> live (snd (start (Inl e) reg w)) = live w
   \<and> next_handle (snd (start (Inl e) reg w)) = next_handle w
   \<and> delivered (snd (start (Inl e) reg w)) = delivered w
   \<and> unlistened (snd (start (Inl e) reg w)) = unlistened w
   \<and> invoked (snd (start (Inl e) reg w)) = invoked w @ [''get_telemetry'']
   \<and> fst (start snapshot reg' (snd (start (Inl e) reg w))) = fst (start snapshot reg' w)
   \<and> (snd (start snapshot reg' (snd (start (Inl e) reg w))))\<lparr>invoked := []\<rparr>
        = (snd (start snapshot reg' w))\<lparr>invoked := []\<rparr>"
  by (cases snapshot; cases reg') (simp_all add: Let_def notify_def)

text \<open>
  C8. \<^verbatim>\<open>subscribe(callback)\<close> calls the callback exactly once before it returns, with
  the current window (TelemetryStore) or the current frame (VideoStore), and changes
  neither; on a store that holds nothing yet the argument is the empty sequence,
  respectively null.
\<close>

theorem subscribe_delivers_current_once:
  "delivered (snd (subscribe cb w)) = delivered w @ [(cb, getAllData w)]
   \<and> getAllData (snd (subscribe cb w)) = getAllData w
   \<and> delivered (snd (subscribe cb (fresh (TelemetryStore_init k0 mp)))) = [(cb, [])]
   \<and> vdelivered (snd (vsubscribe cb v)) = vdelivered v @ [(cb, getCurrentFrame v)]
   \<and> getCurrentFrame (snd (vsubscribe cb v)) = getCurrentFrame v
   \<and> vdelivered (snd (vsubscribe cb (vfresh (VideoStore_new k0)))) = [(cb, None)]"
  by (simp add: subscribe_def vsubscribe_def getAllData_def getCurrentFrame_def Let_def
        fresh_def vfresh_def TelemetryStore_init_def VideoStore_new_def)

text \<open>
  C10. The Disposer returned by \<^verbatim>\<open>subscribe(callback)\<close> removes every registration of
  that callback: afterwards the callback is not registered, however often it was; the
  registrations of the other callbacks are the same, in the same order. Two
  \<^verbatim>\<open>subscribe\<close> calls with one callback return Disposers that do the same, and one
  call of either removes both registrations. A second call of a Disposer changes nothing.
  The same holds for the VideoStore.
\<close>

theorem disposer_removes_equal_callbacks:
  "fst (subscribe cb w) = Disposer cb
   \<and> cb \<notin> set (subscribers (store (dispose (Disposer cb) w)))
   \<and> filter (\<lambda>c. c \<noteq> cb) (subscribers (store (dispose (Disposer cb) w)))
        = filter (\<lambda>c. c \<noteq> cb) (subscribers (store w))
   \<and> subscribers (store (dispose (fst (subscribe cb w)) (snd (subscribe cb (snd (subscribe cb w))))))
        = filter (\<lambda>c. c \<noteq> cb) (subscribers (store w))
   \<and> dispose (Disposer cb) (dispose (Disposer cb) w) = dispose (Disposer cb) w
   \<and> fst (vsubscribe cb v) = Disposer cb
   \<and> cb \<notin> set (vsubscribers (vstore (vdispose (Disposer cb) v)))
   \<and> filter (\<lambda>c. c \<noteq> cb) (vsubscribers (vstore (vdispose (Disposer cb) v)))
        = filter (\<lambda>c. c \<noteq> cb) (vsubscribers (vstore v))
   \<and> vsubscribers (vstore (vdispose (fst (vsubscribe cb v)) (snd (vsubscribe cb (snd (vsubscribe cb v))))))
        = filter (\<lambda>c. c \<noteq> cb) (vsubscribers (vstore v))
   \<and> vdispose (Disposer cb) (vdispose (Disposer cb) v) = vdispose (Disposer cb) v"
  by (simp add: subscribe_def vsubscribe_def Let_def)

subsection \<open>Stopping\<close>

lemma emit_handles:
  "unlistened (emit d w) = unlistened w \<and> next_handle (emit d w) = next_handle w
   \<and> unlisten (store (emit d w)) = unlisten (store w)"
proof -
  have "unlistened (fold (\<lambda>_. on_update d) hs w) = unlistened w
      \<and> next_handle (fold (\<lambda>_. on_update d) hs w) = next_handle w
      \<and> unlisten (store (fold (\<lambda>_. on_update d) hs w)) = unlisten (store w)" for hs
    by (induction hs arbitrary: w) (simp_all add: on_update_def Let_def)
  then show ?thesis by (simp add: emit_def)
qed

lemma handles_ok_step: "handles_ok w \<Longrightarrow> handles_ok (step c w)"
proof (cases c)
  case (Start snapshot reg)
  assume "handles_ok w"
  then show ?thesis using Start
    by (cases snapshot; cases reg)
       (auto simp: handles_ok_def Let_def list_all_iff split: option.splits)
next
  case Stop
  assume "handles_ok w"
  then show ?thesis using Stop
    by (auto simp: handles_ok_def stop_def list_all_iff split: option.splits)
next
  case (Refresh snapshot)
  assume "handles_ok w"
  then show ?thesis using Refresh
    by (cases snapshot) (auto simp: handles_ok_def Let_def split: option.splits)
next
  case (Subscribe cb)
  assume "handles_ok w"
  then show ?thesis using Subscribe
    by (auto simp: handles_ok_def subscribe_def Let_def split: option.splits)
next
  case (Unsubscribe cb)
  assume "handles_ok w"
  then show ?thesis using Unsubscribe
    by (auto simp: handles_ok_def split: option.splits)
next
  case (Push d)
  assume "handles_ok w"
  then show ?thesis using Push emit_handles[of d w]
    by (auto simp: handles_ok_def split: option.splits)
qed

lemma handles_ok_run: "handles_ok w \<Longrightarrow> handles_ok (run cs w)"
  unfolding run_def by (induction cs arbitrary: w) (simp_all add: handles_ok_step)

lemma handles_ok_fresh: "handles_ok (fresh (TelemetryStore_init k0 mp))"
  by (simp add: handles_ok_def fresh_def TelemetryStore_init_def)

lemma stop_twice: "stop (stop w) = stop w"
  by (simp add: stop_def split: option.splits)

lemma emit_frame_handles:
  "vunlistened (emit_frame k0 f w) = vunlistened w \<and> vnext_handle (emit_frame k0 f w) = vnext_handle w
   \<and> vunlisten (vstore (emit_frame k0 f w)) = vunlisten (vstore w)
   \<and> vlive (emit_frame k0 f w) = vlive w"
proof -
  have "vunlistened (fold (\<lambda>_. on_frame f) hs w) = vunlistened w
      \<and> vnext_handle (fold (\<lambda>_. on_frame f) hs w) = vnext_handle w
      \<and> vunlisten (vstore (fold (\<lambda>_. on_frame f) hs w)) = vunlisten (vstore w)
      \<and> vlive (fold (\<lambda>_. on_frame f) hs w) = vlive w" for hs
    by (induction hs arbitrary: w) (simp_all add: on_frame_def vnotify_def)
  then show ?thesis by (simp add: emit_frame_def)
qed

lemma vhandles_ok_step: "vhandles_ok w \<Longrightarrow> vhandles_ok (vstep c w)"
proof (cases c)
  case (VStart latest reg)
  assume "vhandles_ok w"
  then show ?thesis using VStart
    by (cases latest; cases reg)
       (auto simp: vhandles_ok_def vnotify_def Let_def list_all_iff split: option.splits)
next
  case VStop
  assume "vhandles_ok w"
  then show ?thesis using VStop
    by (auto simp: vhandles_ok_def vstop_def list_all_iff split: option.splits)
next
  case (VRefresh latest)
  assume "vhandles_ok w"
  then show ?thesis using VRefresh
    by (cases latest) (auto simp: vhandles_ok_def vnotify_def Let_def split: option.splits)
next
  case (VSubscribe cb)
  assume "vhandles_ok w"
  then show ?thesis using VSubscribe
    by (auto simp: vhandles_ok_def vsubscribe_def Let_def split: option.splits)
next
  case (VUnsubscribe cb)
  assume "vhandles_ok w"
  then show ?thesis using VUnsubscribe
    by (auto simp: vhandles_ok_def split: option.splits)
next
  case (VPush k0 f)
  assume "vhandles_ok w"
  then show ?thesis using VPush emit_frame_handles[of k0 f w]
    by (auto simp: vhandles_ok_def split: option.splits)
qed

lemma vhandles_ok_run: "vhandles_ok w \<Longrightarrow> vhandles_ok (vrun cs w)"
  unfolding vrun_def by (induction cs arbitrary: w) (simp_all add: vhandles_ok_step)

lemma vhandles_ok_fresh: "vhandles_ok (vfresh (VideoStore_new k0))"
  by (simp add: vhandles_ok_def vfresh_def VideoStore_new_def)

lemma vstop_twice: "vstop (vstop w) = vstop w"
  by (simp add: vstop_def split: option.splits)

text \<open>
  C9. A second \<^verbatim>\<open>stop()\<close> with no \<^verbatim>\<open>start()\<close> in between changes nothing: the world
  after two stops is the world after one, so the two together call at most one unlisten
  function. Over any sequence of calls on a new store, no unlisten function is called
  twice. The same holds for the VideoStore.
\<close>

theorem stop_is_idempotent:
  "stop (stop w) = stop w
   \<and> length (unlistened (stop (stop w))) \<le> Suc (length (unlistened w))
   \<and> distinct (unlistened (run cs (fresh (TelemetryStore_init k0 mp))))
   \<and> vstop (vstop v) = vstop v
   \<and> length (vunlistened (vstop (vstop v))) \<le> Suc (length (vunlistened v))
   \<and> distinct (vunlistened (vrun vcs (vfresh (VideoStore_new k1))))"
proof -
  have "length (unlistened (stop w)) \<le> Suc (length (unlistened w))"
    by (simp add: stop_def split: option.splits)
  moreover have "length (vunlistened (vstop v)) \<le> Suc (length (vunlistened v))"
    by (simp add: vstop_def split: option.splits)
  moreover have "distinct (unlistened (run cs (fresh (TelemetryStore_init k0 mp))))"
    using handles_ok_run[OF handles_ok_fresh, of cs k0 mp] by (simp add: handles_ok_def)
  moreover have "distinct (vunlistened (vrun vcs (vfresh (VideoStore_new k1))))"
    using vhandles_ok_run[OF vhandles_ok_fresh, of vcs k1] by (simp add: vhandles_ok_def)
  ultimately show ?thesis by (simp add: stop_twice vstop_twice)
qed

subsection \<open>Video frames of other streams\<close>

text \<open>
  C1, on the code. A VideoStore for key A with one subscriber is started with the latest
  frame of A. The event for a frame added to stream B then replaces the current frame of
  the store for A, and the subscriber is called with the frame of B.
\<close>

theorem other_key_frame_replaces_current:
  "getCurrentFrame (vrun [VSubscribe 7, VStart (Inr (Some (cam_frame 1 ''QUFB''))) (Inr ())]
       (vfresh (VideoStore_new ''A''))) = Some (cam_frame 1 ''QUFB'')
   \<and> getCurrentFrame (emit_frame ''B'' (cam_frame 2 ''QkJC'')
       (vrun [VSubscribe 7, VStart (Inr (Some (cam_frame 1 ''QUFB''))) (Inr ())]
         (vfresh (VideoStore_new ''A'')))) = Some (cam_frame 2 ''QkJC'')
   \<and> vdelivered (emit_frame ''B'' (cam_frame 2 ''QkJC'')
       (vrun [VSubscribe 7, VStart (Inr (Some (cam_frame 1 ''QUFB''))) (Inr ())]
         (vfresh (VideoStore_new ''A''))))
      = vdelivered (vrun [VSubscribe 7, VStart (Inr (Some (cam_frame 1 ''QUFB''))) (Inr ())]
         (vfresh (VideoStore_new ''A''))) @ [(7, Some (cam_frame 2 ''QkJC''))]"
  by (simp add: vrun_def vsubscribe_def vnotify_def emit_frame_def on_frame_def
        getCurrentFrame_def vfresh_def VideoStore_new_def Let_def)

text \<open>The stream key of an event has no influence on a started VideoStore.\<close>

lemma emit_frame_any_key:
  "vlive w = [h] \<Longrightarrow> getCurrentFrame (emit_frame k0 f w) = Some f"
  by (simp add: emit_frame_def on_frame_def vnotify_def getCurrentFrame_def)

subsection \<open>Live listeners over start and stop\<close>

lemma emit_live_unlisten:
  "live (emit d w) = live w \<and> unlisten (store (emit d w)) = unlisten (store w)"
  using emit_keeps[of d w] emit_handles[of d w] by simp

lemma held_is_live_run:
  "held_is_live w \<Longrightarrow> stop_between_starts (unlisten (store w) \<noteq> None) cs \<Longrightarrow>
   held_is_live (run cs w)"
proof (induction cs arbitrary: w)
  case Nil
  then show ?case by (simp add: run_def)
next
  case (Cons c cs)
  have "held_is_live (step c w) \<and> stop_between_starts (unlisten (store (step c w)) \<noteq> None) cs"
  proof (cases c)
    case (Start snapshot reg)
    then show ?thesis using Cons.prems
      by (cases snapshot; cases reg)
         (auto simp: held_is_live_def Let_def split: option.splits if_splits)
  next
    case Stop
    then show ?thesis using Cons.prems
      by (auto simp: held_is_live_def stop_def split: option.splits)
  next
    case (Refresh snapshot)
    then show ?thesis using Cons.prems
      by (cases snapshot) (auto simp: held_is_live_def Let_def split: option.splits)
  next
    case (Subscribe cb)
    then show ?thesis using Cons.prems
      by (auto simp: held_is_live_def subscribe_def Let_def split: option.splits)
  next
    case (Unsubscribe cb)
    then show ?thesis using Cons.prems
      by (auto simp: held_is_live_def split: option.splits)
  next
    case (Push d)
    then show ?thesis using Cons.prems emit_live_unlisten[of d w]
      by (auto simp: held_is_live_def split: option.splits)
  qed
  then have "held_is_live (run cs (step c w))"
    using Cons.IH by blast
  then show ?case by (simp add: run_def)
qed

lemma stop_between_starts_take:
  "stop_between_starts held cs \<Longrightarrow> stop_between_starts held (take n cs)"
proof (induction cs arbitrary: held n)
  case Nil
  then show ?case by simp
next
  case (Cons c cs)
  show ?case
  proof (cases n)
    case 0
    then show ?thesis by simp
  next
    case (Suc m)
    then show ?thesis using Cons by (cases c) (auto split: if_splits)
  qed
qed

lemma held_is_live_fresh: "held_is_live (fresh (TelemetryStore_init k0 mp))"
  by (simp add: held_is_live_def fresh_def TelemetryStore_init_def)

lemma fresh_not_held: "unlisten (store (fresh (TelemetryStore_init k0 mp))) = None"
  by (simp add: fresh_def TelemetryStore_init_def)

lemma held_is_live_bound: "held_is_live w \<Longrightarrow> length (live w) \<le> 1 \<and> live (stop w) = []"
  by (auto simp: held_is_live_def stop_def split: option.splits)

lemma telemetry_single_listener:
  assumes "stop_between_starts False cs"
  shows "length (live (run (take n cs) (fresh (TelemetryStore_init k0 mp)))) \<le> 1
       \<and> live (stop (run (take n cs) (fresh (TelemetryStore_init k0 mp)))) = []"
proof -
  have "stop_between_starts (unlisten (store (fresh (TelemetryStore_init k0 mp))) \<noteq> None) (take n cs)"
    using stop_between_starts_take[OF assms, of n] by (simp add: fresh_not_held)
  from held_is_live_run[OF held_is_live_fresh this] show ?thesis
    by (rule held_is_live_bound)
qed

lemma vheld_is_live_run:
  "vheld_is_live w \<Longrightarrow> vstop_between_starts (vunlisten (vstore w) \<noteq> None) cs \<Longrightarrow>
   vheld_is_live (vrun cs w)"
proof (induction cs arbitrary: w)
  case Nil
  then show ?case by (simp add: vrun_def)
next
  case (Cons c cs)
  have "vheld_is_live (vstep c w) \<and> vstop_between_starts (vunlisten (vstore (vstep c w)) \<noteq> None) cs"
  proof (cases c)
    case (VStart latest reg)
    then show ?thesis using Cons.prems
      by (cases latest; cases reg)
         (auto simp: vheld_is_live_def vnotify_def Let_def split: option.splits if_splits)
  next
    case VStop
    then show ?thesis using Cons.prems
      by (auto simp: vheld_is_live_def vstop_def split: option.splits)
  next
    case (VRefresh latest)
    then show ?thesis using Cons.prems
      by (cases latest) (auto simp: vheld_is_live_def vnotify_def Let_def split: option.splits)
  next
    case (VSubscribe cb)
    then show ?thesis using Cons.prems
      by (auto simp: vheld_is_live_def vsubscribe_def Let_def split: option.splits)
  next
    case (VUnsubscribe cb)
    then show ?thesis using Cons.prems
      by (auto simp: vheld_is_live_def split: option.splits)
  next
    case (VPush k0 f)
    then show ?thesis using Cons.prems emit_frame_handles[of k0 f w]
      by (auto simp: vheld_is_live_def split: option.splits)
  qed
  then have "vheld_is_live (vrun cs (vstep c w))"
    using Cons.IH by blast
  then show ?case by (simp add: vrun_def)
qed

lemma vstop_between_starts_take:
  "vstop_between_starts held cs \<Longrightarrow> vstop_between_starts held (take n cs)"
proof (induction cs arbitrary: held n)
  case Nil
  then show ?case by simp
next
  case (Cons c cs)
  show ?case
  proof (cases n)
    case 0
    then show ?thesis by simp
  next
    case (Suc m)
    then show ?thesis using Cons by (cases c) (auto split: if_splits)
  qed
qed

lemma vheld_is_live_fresh: "vheld_is_live (vfresh (VideoStore_new k0))"
  by (simp add: vheld_is_live_def vfresh_def VideoStore_new_def)

lemma vfresh_not_held: "vunlisten (vstore (vfresh (VideoStore_new k0))) = None"
  by (simp add: vfresh_def VideoStore_new_def)

lemma vheld_is_live_bound: "vheld_is_live w \<Longrightarrow> length (vlive w) \<le> 1 \<and> vlive (vstop w) = []"
  by (auto simp: vheld_is_live_def vstop_def split: option.splits)

lemma video_single_listener:
  assumes "vstop_between_starts False cs"
  shows "length (vlive (vrun (take n cs) (vfresh (VideoStore_new k0)))) \<le> 1
       \<and> vlive (vstop (vrun (take n cs) (vfresh (VideoStore_new k0)))) = []"
proof -
  have "vstop_between_starts (vunlisten (vstore (vfresh (VideoStore_new k0))) \<noteq> None) (take n cs)"
    using vstop_between_starts_take[OF assms, of n] by (simp add: vfresh_not_held)
  from vheld_is_live_run[OF vheld_is_live_fresh this] show ?thesis
    by (rule vheld_is_live_bound)
qed

text \<open>
  C2, as the code has it. Over every sequence of calls on a new TelemetryStore or
  VideoStore in which no \<^verbatim>\<open>start()\<close> attaches a listener while the listener of an
  earlier \<^verbatim>\<open>start()\<close> is still held (a \<^verbatim>\<open>stop()\<close> lies between them), the
  instance holds at most one live listener at every point of the sequence, and a
  \<^verbatim>\<open>stop()\<close> at that point leaves none.
\<close>

theorem one_listener_when_stopped_between_starts:
  assumes "stop_between_starts False cs" and "vstop_between_starts False vcs"
  shows "length (live (run (take n cs) (fresh (TelemetryStore_init k0 mp)))) \<le> 1
       \<and> live (stop (run (take n cs) (fresh (TelemetryStore_init k0 mp)))) = []
       \<and> length (vlive (vrun (take m vcs) (vfresh (VideoStore_new k1)))) \<le> 1
       \<and> vlive (vstop (vrun (take m vcs) (vfresh (VideoStore_new k1)))) = []"
  using telemetry_single_listener[OF assms(1), of n k0 mp]
    video_single_listener[OF assms(2), of m k1] by simp

text \<open>Start, stop, start again: one listener, none after a stop.\<close>

theorem one_listener_when_stopped_between_starts_witness:
  "stop_between_starts False [Start (Inr [rec_y 1]) (Inr ()), Stop, Start (Inr []) (Inr ())]
   \<and> vstop_between_starts False [VStart (Inr None) (Inr ()), VStop, VStart (Inr None) (Inr ())]
   \<and> length (live (run [Start (Inr [rec_y 1]) (Inr ()), Stop, Start (Inr []) (Inr ())]
        (fresh (TelemetryStore_init ''altimeter'' None)))) \<le> 1
   \<and> live (stop (run [Start (Inr [rec_y 1]) (Inr ()), Stop, Start (Inr []) (Inr ())]
        (fresh (TelemetryStore_init ''altimeter'' None)))) = []
   \<and> length (vlive (vrun [VStart (Inr None) (Inr ()), VStop, VStart (Inr None) (Inr ())]
        (vfresh (VideoStore_new ''cam0'')))) \<le> 1
   \<and> vlive (vstop (vrun [VStart (Inr None) (Inr ()), VStop, VStart (Inr None) (Inr ())]
        (vfresh (VideoStore_new ''cam0'')))) = []"
proof -
  have h1: "stop_between_starts False [Start (Inr [rec_y 1]) (Inr ()), Stop, Start (Inr []) (Inr ())]"
    by simp
  have h2: "vstop_between_starts False [VStart (Inr None) (Inr ()), VStop, VStart (Inr None) (Inr ())]"
    by simp
  show ?thesis
    using h1 h2
      one_listener_when_stopped_between_starts[OF h1 h2, of 3 "''altimeter''" None 3 "''cam0''"]
    by simp
qed

text \<open>
  C2 as stated fails: a second \<^verbatim>\<open>start()\<close> without a \<^verbatim>\<open>stop()\<close> leaves two live
  listeners, and the \<^verbatim>\<open>stop()\<close> that follows removes only the second.
\<close>

theorem second_start_leaves_two_listeners:
  "length (live (run [Start (Inr []) (Inr ()), Start (Inr []) (Inr ())]
      (fresh (TelemetryStore_init ''altimeter'' None)))) = 2
   \<and> live (stop (run [Start (Inr []) (Inr ()), Start (Inr []) (Inr ())]
      (fresh (TelemetryStore_init ''altimeter'' None)))) = [0]
   \<and> length (vlive (vrun [VStart (Inr None) (Inr ()), VStart (Inr None) (Inr ())]
      (vfresh (VideoStore_new ''cam0'')))) = 2
   \<and> vlive (vstop (vrun [VStart (Inr None) (Inr ()), VStart (Inr None) (Inr ())]
      (vfresh (VideoStore_new ''cam0'')))) = [0]"
  by (simp add: run_def vrun_def stop_def vstop_def notify_def vnotify_def fresh_def vfresh_def
        TelemetryStore_init_def VideoStore_new_def Let_def)

subsection \<open>The current record\<close>

lemma slice_snoc_last: "slice st (xs @ [d]) = [] \<or> last (slice st (xs @ [d])) = d"
proof -
  obtain j where j: "slice st (xs @ [d]) = drop j (xs @ [d])"
    by (simp add: slice_def Let_def)
  show ?thesis
  proof (cases "j < length (xs @ [d])")
    case True
    then have "last (drop j (xs @ [d])) = last (xs @ [d])" by (rule last_drop)
    then show ?thesis unfolding j by simp
  next
    case False
    then show ?thesis unfolding j by simp
  qed
qed

lemma current_is_last_on_update: "current_is_last (on_update d w)"
  using slice_snoc_last[of "- maxPoints (store w)" "data (store w)" d]
  by (auto simp: current_is_last_def on_update_def Let_def)

lemma current_is_last_emit: "current_is_last w \<Longrightarrow> current_is_last (emit d w)"
proof -
  have "current_is_last u \<Longrightarrow> current_is_last (fold (\<lambda>_. on_update d) hs u)"
    for hs :: "handle list" and u
    by (induction hs arbitrary: u) (simp_all add: current_is_last_on_update)
  then show "current_is_last w \<Longrightarrow> current_is_last (emit d w)"
    by (simp add: emit_def)
qed

lemma current_is_last_step: "current_is_last w \<Longrightarrow> current_is_last (step c w)"
proof (cases c)
  case (Start snapshot reg)
  assume "current_is_last w"
  then show ?thesis using Start
    by (cases snapshot; cases reg) (auto simp: current_is_last_def Let_def)
next
  case Stop
  assume "current_is_last w"
  then show ?thesis using Stop
    by (auto simp: current_is_last_def stop_def split: option.splits)
next
  case (Refresh snapshot)
  assume "current_is_last w"
  then show ?thesis using Refresh
    by (cases snapshot) (auto simp: current_is_last_def Let_def)
next
  case (Subscribe cb)
  assume "current_is_last w"
  then show ?thesis using Subscribe
    by (auto simp: current_is_last_def subscribe_def Let_def)
next
  case (Unsubscribe cb)
  assume "current_is_last w"
  then show ?thesis using Unsubscribe
    by (auto simp: current_is_last_def)
next
  case (Push d)
  assume "current_is_last w"
  then show ?thesis using Push by (simp add: current_is_last_emit)
qed

lemma current_is_last_run: "current_is_last w \<Longrightarrow> current_is_last (run cs w)"
  unfolding run_def by (induction cs arbitrary: w) (simp_all add: current_is_last_step)

lemma current_is_last_fresh: "current_is_last (fresh (TelemetryStore_init k0 mp))"
  by (simp add: current_is_last_def fresh_def TelemetryStore_init_def)

text \<open>
  C5, as the code has it. After any sequence of calls on a new TelemetryStore (starts,
  stops, refreshes, subscriptions, push events), a non-empty buffer has the current
  record as its last element. A new store has no current record. A \<^verbatim>\<open>start()\<close> or
  \<^verbatim>\<open>refresh()\<close> whose snapshot is empty empties the buffer and leaves the current
  record as it was.
\<close>

theorem current_is_last_of_window:
  "(getAllData (run cs (fresh (TelemetryStore_init k0 mp))) \<noteq> [] \<longrightarrow>
      getCurrentData (run cs (fresh (TelemetryStore_init k0 mp)))
        = Some (last (getAllData (run cs (fresh (TelemetryStore_init k0 mp))))))
   \<and> getCurrentData (fresh (TelemetryStore_init k0 mp)) = None
   \<and> getAllData (snd (start (Inr []) reg w)) = []
   \<and> getCurrentData (snd (start (Inr []) reg w)) = getCurrentData w
   \<and> getAllData (snd (refresh (Inr []) w)) = []
   \<and> getCurrentData (snd (refresh (Inr []) w)) = getCurrentData w"
proof -
  have "current_is_last (run cs (fresh (TelemetryStore_init k0 mp)))"
    using current_is_last_run[OF current_is_last_fresh] .
  then have "getAllData (run cs (fresh (TelemetryStore_init k0 mp))) \<noteq> [] \<longrightarrow>
      getCurrentData (run cs (fresh (TelemetryStore_init k0 mp)))
        = Some (last (getAllData (run cs (fresh (TelemetryStore_init k0 mp)))))"
    by (auto simp: current_is_last_def getAllData_def getCurrentData_def)
  moreover have "getCurrentData (fresh (TelemetryStore_init k0 mp)) = None"
    by (simp add: getCurrentData_def fresh_def TelemetryStore_init_def)
  moreover have "getAllData (snd (start (Inr []) reg w)) = []"
    and "getCurrentData (snd (start (Inr []) reg w)) = getCurrentData w"
    by (cases reg; simp add: getAllData_def getCurrentData_def Let_def)+
  moreover have "getAllData (snd (refresh (Inr []) w)) = []"
    and "getCurrentData (snd (refresh (Inr []) w)) = getCurrentData w"
    by (simp_all add: getAllData_def getCurrentData_def Let_def)
  ultimately show ?thesis by blast
qed

text \<open>The scenario of the specification: snapshot of one record, then one push event.\<close>

theorem current_is_last_of_window_witness:
  "getAllData (run [Start (Inr [rec_y 10]) (Inr ()), Push (rec_y 12)]
      (fresh (TelemetryStore_init ''altimeter'' None))) = [rec_y 10, rec_y 12]
   \<and> getCurrentData (run [Start (Inr [rec_y 10]) (Inr ()), Push (rec_y 12)]
      (fresh (TelemetryStore_init ''altimeter'' None))) = Some (rec_y 12)"
proof -
  have w: "getAllData (run [Start (Inr [rec_y 10]) (Inr ()), Push (rec_y 12)]
      (fresh (TelemetryStore_init ''altimeter'' None))) = [rec_y 10, rec_y 12]"
    by (simp add: run_def emit_def on_update_def notify_def slice_def getAllData_def fresh_def
          TelemetryStore_init_def Let_def)
  then have ne: "getAllData (run [Start (Inr [rec_y 10]) (Inr ()), Push (rec_y 12)]
      (fresh (TelemetryStore_init ''altimeter'' None))) \<noteq> []"
    by simp
  show ?thesis
    using current_is_last_of_window[of "[Start (Inr [rec_y 10]) (Inr ()), Push (rec_y 12)]"
        "''altimeter''" None] ne w
    by simp
qed

text \<open>
  C5 as stated fails in its last sentence: after a restart with an empty snapshot the
  buffer is empty and the current record is still the one of the earlier snapshot.
\<close>

theorem empty_snapshot_keeps_stale_current:
  "getAllData (run [Start (Inr [rec_y 10]) (Inr ()), Stop, Start (Inr []) (Inr ())]
      (fresh (TelemetryStore_init ''altimeter'' None))) = []
   \<and> getCurrentData (run [Start (Inr [rec_y 10]) (Inr ()), Stop, Start (Inr []) (Inr ())]
      (fresh (TelemetryStore_init ''altimeter'' None))) = Some (rec_y 10)
   \<and> getCurrentData (run [Start (Inr [rec_y 10]) (Inr ()), Stop, Start (Inr []) (Inr ())]
      (fresh (TelemetryStore_init ''altimeter'' None))) \<noteq> None"
  by (simp add: run_def stop_def notify_def getAllData_def getCurrentData_def fresh_def
        TelemetryStore_init_def Let_def)

end
